theory Spec2Isabelle
  imports Main
begin

section \<open>Data model of \<^verbatim>\<open>TestCasePage.tsx\<close>\<close>

text \<open>
  The source declares
  \<^verbatim>\<open>type Branch = { condition: string; nextStep: number }\<close>,
  \<^verbatim>\<open>type Step = { action; expectedStatus; expectedValue; dependsOn?; branches? }\<close> and
  \<^verbatim>\<open>type TestCase = { id; title; precondition; steps }\<close>.
  Strings are byte lists; the Chinese literals of the source are written as their UTF-8
  bytes. The \<^verbatim>\<open>number\<close> fields hold step indices and are modelled as integers; an
  optional field is an \<open>option\<close>. The three-valued string union of \<^verbatim>\<open>expectedStatus\<close>
  is a datatype, rendered by \<open>status_text\<close>.
\<close>

datatype Status = Success | Failure | Exception

record Branch =
  condition :: string
  nextStep :: int

record Step =
  action :: string
  expectedStatus :: Status
  expectedValue :: string
  dependsOn :: "int option"
  branches :: "Branch list option"

record TestCase =
  case_id :: string
  title :: string
  precondition :: string
  steps :: "Step list"

definition status_text :: "Status \<Rightarrow> string" where
  "status_text st = (case st of
      Success \<Rightarrow> [CHR 0xE6, CHR 0x88, CHR 0x90, CHR 0xE5, CHR 0x8A, CHR 0x9F]
    | Failure \<Rightarrow> [CHR 0xE5, CHR 0xA4, CHR 0xB1, CHR 0xE8, CHR 0xB4, CHR 0xA5]
    | Exception \<Rightarrow> [CHR 0xE5, CHR 0xBC, CHR 0x82, CHR 0xE5, CHR 0xB8, CHR 0xB8])"

text \<open>The word for "step" that the exporters print, \<^verbatim>\<open>E6 AD A5 E9 AA A4\<close> in UTF-8.\<close>

definition word_step :: string where
  "word_step = [CHR 0xE6, CHR 0xAD, CHR 0xA5, CHR 0xE9, CHR 0xAA, CHR 0xA4]"

definition nl :: string where
  "nl = [CHR 0x0A]"

definition dq :: string where
  "dq = [CHR 0x22]"

subsection \<open>JavaScript primitives used by the page\<close>

text \<open>
  Template literals render a number in decimal. The model covers integers; indices and
  the values the form can store are natural numbers.
\<close>

definition digit_char :: "nat \<Rightarrow> char" where
  "digit_char d = ''0123456789'' ! d"

fun string_of_nat :: "nat \<Rightarrow> string" where
  "string_of_nat n =
     (if n < 10 then [digit_char n]
      else string_of_nat (n div 10) @ [digit_char (n mod 10)])"

declare string_of_nat.simps [simp del]

definition string_of_int :: "int \<Rightarrow> string" where
  "string_of_int i =
     (if i < 0 then CHR ''-'' # string_of_nat (nat (- i)) else string_of_nat (nat i))"

text \<open>\<^verbatim>\<open>xs.forEach((x, idx) => ...)\<close> where the callback updates a variable of the
  enclosing scope: the variable is threaded through as an accumulator.\<close>

fun forEach_idx :: "('a \<Rightarrow> nat \<Rightarrow> 's \<Rightarrow> 's) \<Rightarrow> 'a list \<Rightarrow> nat \<Rightarrow> 's \<Rightarrow> 's" where
  "forEach_idx f [] i acc = acc"
| "forEach_idx f (x # xs) i acc = forEach_idx f xs (Suc i) (f x i acc)"

text \<open>\<^verbatim>\<open>xs.map((x, idx) => ...)\<close>, the index starting at \<open>i\<close>.\<close>

fun map_idx :: "('a \<Rightarrow> nat \<Rightarrow> 'b) \<Rightarrow> nat \<Rightarrow> 'a list \<Rightarrow> 'b list" where
  "map_idx f i [] = []"
| "map_idx f i (x # xs) = f x i # map_idx f (Suc i) xs"

text \<open>\<^verbatim>\<open>xs.join(sep)\<close> on an array of strings.\<close>

fun join :: "string \<Rightarrow> string list \<Rightarrow> string" where
  "join sep [] = []"
| "join sep [x] = x"
| "join sep (x # y # ys) = x @ sep @ join sep (y # ys)"

section \<open>Graph Builder: \<^verbatim>\<open>generateMermaid\<close>\<close>

definition style_class :: "Status \<Rightarrow> string" where
  "style_class st = (case st of Success \<Rightarrow> ''success'' | Failure \<Rightarrow> ''fail'' | Exception \<Rightarrow> ''exception'')"

text \<open>The four line templates of the source:
  \<^verbatim>\<open>S${idx}["${s.action} | ${s.expectedStatus}"]\n\<close>,
  \<^verbatim>\<open>S${s.dependsOn} --> S${idx}\n\<close>,
  \<^verbatim>\<open>S${idx} -->|${b.condition}| S${b.nextStep}\n\<close> and
  \<^verbatim>\<open>class S${idx} ${...}\n\<close>.\<close>

definition node_line :: "Step \<Rightarrow> nat \<Rightarrow> string" where
  "node_line s idx =
     ''S'' @ string_of_nat idx @ ''['' @ dq @ action s @ '' | '' @ status_text (expectedStatus s)
       @ dq @ '']'' @ nl"

definition dep_edge_line :: "int \<Rightarrow> nat \<Rightarrow> string" where
  "dep_edge_line d idx = ''S'' @ string_of_int d @ '' --> S'' @ string_of_nat idx @ nl"

definition branch_edge_line :: "nat \<Rightarrow> Branch \<Rightarrow> string" where
  "branch_edge_line idx b =
     ''S'' @ string_of_nat idx @ '' -->|'' @ condition b @ ''| S'' @ string_of_int (nextStep b) @ nl"

definition class_line :: "Step \<Rightarrow> nat \<Rightarrow> string" where
  "class_line s idx = ''class S'' @ string_of_nat idx @ '' '' @ style_class (expectedStatus s) @ nl"

text \<open>The body of the second loop: the dependency edge of the step, if it declares one
  (\<^verbatim>\<open>s.dependsOn !== undefined\<close>), then one edge per branch,
  \<^verbatim>\<open>s.branches?.forEach(...)\<close> doing nothing when the field is absent.\<close>

definition emit_edges :: "Step \<Rightarrow> nat \<Rightarrow> string \<Rightarrow> string" where
  "emit_edges s idx code =
     (let code1 = (case dependsOn s of
                     None \<Rightarrow> code
                   | Some d \<Rightarrow> code @ dep_edge_line d idx)
      in case branches s of
           None \<Rightarrow> code1
         | Some bs \<Rightarrow> fold (\<lambda>b acc. acc @ branch_edge_line idx b) bs code1)"

definition classDefs :: string where
  "classDefs = nl
     @ ''classDef success fill:#dcfce7,stroke:#22c55e,color:#166534'' @ nl
     @ ''classDef fail fill:#fee2e2,stroke:#ef4444,color:#b91c1c'' @ nl
     @ ''classDef exception fill:#ffedd5,stroke:#f97316,color:#9a3412'' @ nl"

definition generateMermaid :: "TestCase \<Rightarrow> string" where
  "generateMermaid c =
     (let code0 = ''graph TD'' @ nl;
          code1 = forEach_idx (\<lambda>s idx code. code @ node_line s idx) (steps c) 0 code0;
          code2 = forEach_idx emit_edges (steps c) 0 code1;
          code3 = forEach_idx (\<lambda>s idx code. code @ class_line s idx) (steps c) 0 code2
      in code3 @ classDefs)"

text \<open>
  The edges a step contributes, and the graph description as section 4.2 of the
  specification words its order (for comparison with \<open>generateMermaid\<close>): all
  dependency edges in step order, then all branch edges in step order.
\<close>

definition dep_edges_of :: "Step \<Rightarrow> nat \<Rightarrow> string" where
  "dep_edges_of s idx = (case dependsOn s of None \<Rightarrow> [] | Some d \<Rightarrow> dep_edge_line d idx)"

definition branch_edges_of :: "Step \<Rightarrow> nat \<Rightarrow> string" where
  "branch_edges_of s idx =
     concat (map (branch_edge_line idx) (case branches s of None \<Rightarrow> [] | Some bs \<Rightarrow> bs))"

definition generateMermaid_spec :: "TestCase \<Rightarrow> string" where
  "generateMermaid_spec c =
     ''graph TD'' @ nl
     @ concat (map_idx node_line 0 (steps c))
     @ concat (map_idx dep_edges_of 0 (steps c))
     @ concat (map_idx branch_edges_of 0 (steps c))
     @ concat (map_idx class_line 0 (steps c))
     @ classDefs"

section \<open>Model: the page state and its operations\<close>

text \<open>
  The component keeps five \<^verbatim>\<open>useState\<close> cells: \<^verbatim>\<open>cases\<close>, the form's \<^verbatim>\<open>title\<close>,
  \<^verbatim>\<open>precondition\<close> and \<^verbatim>\<open>steps\<close> (suffixed \<open>F\<close> here: the names are taken by the
  fields of a test case), and \<^verbatim>\<open>editingId\<close>, which is \<^verbatim>\<open>null\<close> outside an edit session.
  Every handler maps the state to the next one. The copies \<^verbatim>\<open>{ ...s }\<close> are the
  identity on values. The model is by value: it covers what each handler passes to
  the state setters, not the writes that the form's input handlers make in place to
  branch objects which the form shares with the case under edit.
\<close>

record Page =
  cases :: "TestCase list"
  titleF :: string
  preconditionF :: string
  stepsF :: "Step list"
  editingId :: "string option"

definition default_step :: Step where
  "default_step = \<lparr>action = [], expectedStatus = Success, expectedValue = [],
                    dependsOn = None, branches = None\<rparr>"

text \<open>The state after the first render, given the collection read from storage.\<close>

definition initial_page :: "TestCase list \<Rightarrow> Page" where
  "initial_page cs = \<lparr>cases = cs, titleF = [], preconditionF = [], stepsF = [default_step],
                       editingId = None\<rparr>"

definition resetForm :: "Page \<Rightarrow> Page" where
  "resetForm st = st\<lparr>titleF := [], preconditionF := [], stepsF := [default_step]\<rparr>"

definition addCase :: "Page \<Rightarrow> Page" where
  "addCase st =
     (let new_id = ''TC-'' @ string_of_nat (length (cases st) + 1)
      in resetForm (st\<lparr>cases := cases st @
           [\<lparr>case_id = new_id, title = titleF st, precondition = preconditionF st,
             steps = map (\<lambda>s. s) (stepsF st)\<rparr>]\<rparr>))"

definition editCase :: "TestCase \<Rightarrow> Page \<Rightarrow> Page" where
  "editCase tc st =
     st\<lparr>editingId := Some (case_id tc), titleF := title tc, preconditionF := precondition tc,
        stepsF := map (\<lambda>s. s\<lparr>branches := Some (case branches s of Some bs \<Rightarrow> bs | None \<Rightarrow> [])\<rparr>)
                      (steps tc)\<rparr>"

text \<open>\<^verbatim>\<open>if (!editingId) return\<close>: \<^verbatim>\<open>null\<close> and the empty string are both falsy.\<close>

definition saveCase :: "Page \<Rightarrow> Page" where
  "saveCase st =
     (case editingId st of
        None \<Rightarrow> st
      | Some eid \<Rightarrow>
          if eid = [] then st
          else resetForm (st\<lparr>cases := map (\<lambda>c. if case_id c = eid
                                                then c\<lparr>title := titleF st,
                                                       precondition := preconditionF st,
                                                       steps := map (\<lambda>s. s) (stepsF st)\<rparr>
                                                else c) (cases st),
                                editingId := None\<rparr>))"

text \<open>\<^verbatim>\<open>deleteCase\<close> and \<^verbatim>\<open>clearCases\<close> ask \<^verbatim>\<open>confirm(...)\<close> first; the user's answer
  is the first argument.\<close>

definition deleteCase :: "bool \<Rightarrow> string \<Rightarrow> Page \<Rightarrow> Page" where
  "deleteCase confirmed i st =
     (if confirmed then st\<lparr>cases := filter (\<lambda>c. case_id c \<noteq> i) (cases st)\<rparr> else st)"

definition clearCases :: "bool \<Rightarrow> Page \<Rightarrow> Page" where
  "clearCases confirmed st = (if confirmed then st\<lparr>cases := []\<rparr> else st)"

definition setTitle :: "string \<Rightarrow> Page \<Rightarrow> Page" where
  "setTitle t st = st\<lparr>titleF := t\<rparr>"

definition addStep :: "Page \<Rightarrow> Page" where
  "addStep st = st\<lparr>stepsF := stepsF st @ [default_step]\<rparr>"

text \<open>\<^verbatim>\<open>steps.filter((_, i) => i !== idx)\<close>.\<close>

definition deleteStep :: "nat \<Rightarrow> Page \<Rightarrow> Page" where
  "deleteStep idx st =
     st\<lparr>stepsF := map fst (filter (\<lambda>(s, i). i \<noteq> idx) (zip (stepsF st) [0..<length (stepsF st)]))\<rparr>"

text \<open>
  What section 4.1 of the specification says of \<open>updateCase\<close>, for comparison with
  \<open>saveCase\<close>: the patch replaces the three fields of the case with the given id, and
  the operation fails with \<open>NotFound\<close> when the id is absent.
\<close>

datatype model_error = NotFound

definition updateCase_spec ::
    "string \<Rightarrow> string \<Rightarrow> string \<Rightarrow> Step list \<Rightarrow> TestCase list \<Rightarrow> model_error + TestCase list" where
  "updateCase_spec i t p ss cs =
     (if list_ex (\<lambda>c. case_id c = i) cs
      then Inr (map (\<lambda>c. if case_id c = i then c\<lparr>title := t, precondition := p, steps := ss\<rparr> else c) cs)
      else Inl NotFound)"

section \<open>Exporters\<close>

text \<open>\<^verbatim>\<open>x || d\<close> on a string that may be \<^verbatim>\<open>undefined\<close>: the default replaces
  \<^verbatim>\<open>undefined\<close> and the empty string.\<close>

definition js_or :: "string option \<Rightarrow> string \<Rightarrow> string" where
  "js_or v d = (case v of None \<Rightarrow> d | Some s \<Rightarrow> if s = [] then d else s)"

subsection \<open>Tabular exporter: \<^verbatim>\<open>exportExcel\<close>\<close>

text \<open>The rows handed to \<^verbatim>\<open>XLSX.utils.json_to_sheet\<close>; the source's column keys are
  \<^verbatim>\<open>ID\<close> and the Chinese words for title, precondition and steps.\<close>

record Row =
  col_ID :: string
  col_title :: string
  col_precondition :: string
  col_steps :: string

definition branch_summary :: "Branch \<Rightarrow> string" where
  "branch_summary b =
     ''['' @ condition b @ '' -> '' @ word_step @ '' '' @ string_of_int (nextStep b + 1) @ '']''"

definition step_line :: "Step \<Rightarrow> nat \<Rightarrow> string" where
  "step_line s idx =
     (let branchStr = js_or (map_option (\<lambda>bs. join '', '' (map branch_summary bs)) (branches s)) []
      in word_step @ '' '' @ string_of_nat (idx + 1) @ '': '' @ action s @ '' | ''
           @ status_text (expectedStatus s) @ '' | '' @ expectedValue s @ '' '' @ branchStr)"

definition exportExcel :: "TestCase list \<Rightarrow> Row list" where
  "exportExcel cs =
     map (\<lambda>c. \<lparr>col_ID = case_id c, col_title = title c, col_precondition = precondition c,
               col_steps = join nl (map_idx step_line 0 (steps c))\<rparr>) cs"

subsection \<open>Outline exporter: \<^verbatim>\<open>exportXMind\<close>\<close>

text \<open>The topic builders of \<^verbatim>\<open>xmind-generator\<close>: a topic has a title, an optional note
  and child topics; \<^verbatim>\<open>.note(t)\<close> (here \<open>set_note\<close>) and \<^verbatim>\<open>.children(ts)\<close>
  (here \<open>add_children\<close>) return the topic updated.\<close>

datatype Topic = Topic (topic_title: string) (topic_note: "string option") (topic_children: "Topic list")

definition new_topic :: "string \<Rightarrow> Topic" where
  "new_topic t = Topic t None []"

definition set_note :: "string \<Rightarrow> Topic \<Rightarrow> Topic" where
  "set_note n tp = Topic (topic_title tp) (Some n) (topic_children tp)"

definition add_children :: "Topic list \<Rightarrow> Topic \<Rightarrow> Topic" where
  "add_children ts tp = Topic (topic_title tp) (topic_note tp) (topic_children tp @ ts)"

definition word_branch :: string where
  "word_branch = [CHR 0xE5, CHR 0x88, CHR 0x86, CHR 0xE6, CHR 0x94, CHR 0xAF]"

definition word_testcases :: string where
  "word_testcases = [CHR 0xE6, CHR 0xB5, CHR 0x8B, CHR 0xE8, CHR 0xAF, CHR 0x95, CHR 0xE7, CHR 0x94, CHR 0xA8, CHR 0xE4, CHR 0xBE, CHR 0x8B]"

definition branch_topic :: "Branch \<Rightarrow> Topic" where
  "branch_topic b =
     new_topic (word_branch @ '': '' @ condition b @ '' -> '' @ word_step @ '' ''
                @ string_of_int (nextStep b + 1))"

definition step_topic :: "Step \<Rightarrow> nat \<Rightarrow> Topic" where
  "step_topic s idx =
     (let stepTopic = set_note (expectedValue s)
            (new_topic (word_step @ '' '' @ string_of_nat (idx + 1) @ '': '' @ action s
                        @ '' ['' @ status_text (expectedStatus s) @ '']''))
      in case branches s of
           None \<Rightarrow> stepTopic
         | Some bs \<Rightarrow> add_children (map branch_topic bs) stepTopic)"

definition case_topic :: "TestCase \<Rightarrow> Topic" where
  "case_topic c =
     add_children (map_idx step_topic 0 (steps c))
       (set_note (js_or (Some (precondition c)) [])
          (new_topic (case_id c @ '': '' @ title c)))"

definition exportXMind :: "TestCase list \<Rightarrow> Topic" where
  "exportXMind cs = add_children (map case_topic cs) (new_topic word_testcases)"

text \<open>The number of topics on the longest path from a topic down to a leaf.\<close>

fun depth :: "Topic \<Rightarrow> nat" where
  "depth (Topic t n ts) = Suc (fold max (map depth ts) 0)"

text \<open>A step with at least one branch, and a case with such a step.\<close>

definition step_has_branch :: "Step \<Rightarrow> bool" where
  "step_has_branch s = (case branches s of None \<Rightarrow> False | Some bs \<Rightarrow> bs \<noteq> [])"

definition has_branch :: "TestCase \<Rightarrow> bool" where
  "has_branch c = list_ex step_has_branch (steps c)"

subsection \<open>Report exporter: \<^verbatim>\<open>exportHtml\<close>\<close>

text \<open>
  The branch entry evaluates \<^verbatim>\<open>cases[c.id as any]?.steps[b.nextStep]?.action\<close>: a
  property read on the array \<^verbatim>\<open>cases\<close> with the case's id, a string, as the key.
  An array has its elements under the canonical decimal strings of their indices, its
  own \<^verbatim>\<open>length\<close>, and what it inherits from \<^verbatim>\<open>Array.prototype\<close> and
  \<^verbatim>\<open>Object.prototype\<close>; every other key reads \<^verbatim>\<open>undefined\<close>. The optional chain
  stops with \<^verbatim>\<open>undefined\<close> only when that first read is nullish: a number or a
  function has no \<^verbatim>\<open>steps\<close>, and indexing \<^verbatim>\<open>undefined\<close> throws a \<^verbatim>\<open>TypeError\<close>.
\<close>

datatype js_error = TypeError | SyntaxError

datatype prop_value = Undefined | Element TestCase | OtherValue

definition is_digit :: "char \<Rightarrow> bool" where
  "is_digit ch = (ch \<in> set ''0123456789'')"

definition nat_of_digits :: "string \<Rightarrow> nat" where
  "nat_of_digits s = foldl (\<lambda>n ch. 10 * n + (of_char ch - 48)) 0 s"

definition array_index :: "string \<Rightarrow> nat option" where
  "array_index k =
     (if k \<noteq> [] \<and> list_all is_digit k \<and> (k = ''0'' \<or> hd k \<noteq> CHR ''0'')
      then Some (nat_of_digits k) else None)"

definition inherited_props :: "string list" where
  "inherited_props =
     [''at'', ''concat'', ''constructor'', ''copyWithin'', ''entries'', ''every'', ''fill'',
      ''filter'', ''find'', ''findIndex'', ''findLast'', ''findLastIndex'', ''flat'',
      ''flatMap'', ''forEach'', ''includes'', ''indexOf'', ''join'', ''keys'',
      ''lastIndexOf'', ''map'', ''pop'', ''push'', ''reduce'', ''reduceRight'', ''reverse'',
      ''shift'', ''slice'', ''some'', ''sort'', ''splice'', ''toLocaleString'',
      ''toReversed'', ''toSorted'', ''toSpliced'', ''toString'', ''unshift'', ''values'',
      ''with'', ''hasOwnProperty'', ''isPrototypeOf'', ''propertyIsEnumerable'', ''valueOf'',
      ''__proto__'', ''__defineGetter__'', ''__defineSetter__'', ''__lookupGetter__'',
      ''__lookupSetter__'']"

definition array_get_prop :: "TestCase list \<Rightarrow> string \<Rightarrow> prop_value" where
  "array_get_prop cs k =
     (case array_index k of
        Some i \<Rightarrow> if i < length cs then Element (cs ! i) else Undefined
      | None \<Rightarrow> if k = ''length'' \<or> k \<in> set inherited_props then OtherValue else Undefined)"

text \<open>\<^verbatim>\<open>xs[i]\<close> for a number \<open>i\<close>: \<^verbatim>\<open>undefined\<close> outside the array.\<close>

definition js_nth :: "'a list \<Rightarrow> int \<Rightarrow> 'a option" where
  "js_nth xs i = (if 0 \<le> i \<and> nat i < length xs then Some (xs ! nat i) else None)"

text \<open>\<^verbatim>\<open>xs.map(f)\<close> where \<open>f\<close> may throw: the first exception leaves the loop.\<close>

fun map_err :: "('a \<Rightarrow> 'e + 'b) \<Rightarrow> 'a list \<Rightarrow> 'e + 'b list" where
  "map_err f [] = Inr []"
| "map_err f (x # xs) =
     (case f x of
        Inl e \<Rightarrow> Inl e
      | Inr y \<Rightarrow> (case map_err f xs of Inl e \<Rightarrow> Inl e | Inr ys \<Rightarrow> Inr (y # ys)))"

text \<open>The words of the report: the placeholder for a target that does not resolve
  ("unknown action"), "none" for an empty text, and the labels of the entries.\<close>

definition word_unknown :: string where
  "word_unknown = [CHR 0xE6, CHR 0x9C, CHR 0xAA, CHR 0xE7, CHR 0x9F, CHR 0xA5, CHR 0xE6, CHR 0x93, CHR 0x8D, CHR 0xE4, CHR 0xBD, CHR 0x9C]"

definition word_none :: string where
  "word_none = [CHR 0xE6, CHR 0x97, CHR 0xA0]"

definition word_condition :: string where
  "word_condition = [CHR 0xE6, CHR 0x9D, CHR 0xA1, CHR 0xE4, CHR 0xBB, CHR 0xB6]"

definition word_next :: string where
  "word_next = [CHR 0xE4, CHR 0xB8, CHR 0x8B, CHR 0xE4, CHR 0xB8, CHR 0x80, CHR 0xE6, CHR 0xAD, CHR 0xA5]"

definition word_action :: string where
  "word_action = [CHR 0xE6, CHR 0x93, CHR 0x8D, CHR 0xE4, CHR 0xBD, CHR 0x9C]"

definition word_status :: string where
  "word_status = [CHR 0xE7, CHR 0x8A, CHR 0xB6, CHR 0xE6, CHR 0x80, CHR 0x81]"

definition word_expected :: string where
  "word_expected = [CHR 0xE6, CHR 0x9C, CHR 0x9F, CHR 0xE6, CHR 0x9C, CHR 0x9B, CHR 0xE5, CHR 0x80, CHR 0xBC]"

definition word_precondition :: string where
  "word_precondition = [CHR 0xE5, CHR 0x89, CHR 0x8D, CHR 0xE7, CHR 0xBD, CHR 0xAE, CHR 0xE6, CHR 0x9D, CHR 0xA1, CHR 0xE4, CHR 0xBB, CHR 0xB6]"

definition arrow :: string where
  "arrow = [CHR 0xE2, CHR 0x86, CHR 0x92]"

definition target_action :: "TestCase list \<Rightarrow> TestCase \<Rightarrow> Branch \<Rightarrow> js_error + string option" where
  "target_action cs c b =
     (case array_get_prop cs (case_id c) of
        Undefined \<Rightarrow> Inr None
      | OtherValue \<Rightarrow> Inl TypeError
      | Element tc \<Rightarrow> Inr (map_option action (js_nth (steps tc) (nextStep b))))"

definition branch_entry :: "TestCase list \<Rightarrow> TestCase \<Rightarrow> Branch \<Rightarrow> js_error + string" where
  "branch_entry cs c b =
     (case target_action cs c b of
        Inl e \<Rightarrow> Inl e
      | Inr a \<Rightarrow> Inr (''<li>'' @ word_condition @ '': '' @ condition b @ '' '' @ arrow @ '' '' @ word_next
                      @ '': '' @ js_or a word_unknown @ ''</li>''))"

definition branch_list :: "TestCase list \<Rightarrow> TestCase \<Rightarrow> Step \<Rightarrow> js_error + string" where
  "branch_list cs c s =
     (case branches s of
        None \<Rightarrow> Inr []
      | Some bs \<Rightarrow>
          if length bs > 0
          then (case map_err (branch_entry cs c) bs of
                  Inl e \<Rightarrow> Inl e
                | Inr es \<Rightarrow> Inr (nl @ ''<ul>'' @ nl @ join [] es @ nl @ ''</ul>'' @ nl))
          else Inr [])"

definition step_entry :: "TestCase list \<Rightarrow> TestCase \<Rightarrow> Step \<Rightarrow> js_error + string" where
  "step_entry cs c s =
     (case branch_list cs c s of
        Inl e \<Rightarrow> Inl e
      | Inr bl \<Rightarrow>
          Inr (nl @ ''<li>'' @ nl @ word_action @ '': '' @ action s @ '' '' @ arrow @ '' '' @ word_status
               @ '': <span class='' @ dq @ ''status-'' @ style_class (expectedStatus s) @ dq @ ''>''
               @ status_text (expectedStatus s) @ ''</span> '' @ arrow @ '' '' @ word_expected @ '': ''
               @ js_or (Some (expectedValue s)) word_none @ nl @ bl @ nl @ ''</li>'' @ nl))"

definition case_card :: "TestCase list \<Rightarrow> TestCase \<Rightarrow> js_error + string" where
  "case_card cs c =
     (case map_err (step_entry cs c) (steps c) of
        Inl e \<Rightarrow> Inl e
      | Inr ss \<Rightarrow>
          Inr (nl @ ''<div class='' @ dq @ ''case-card'' @ dq @ ''>'' @ nl @ ''<h2>'' @ case_id c @ '': ''
               @ title c @ ''</h2>'' @ nl @ ''<p>'' @ word_precondition @ '': ''
               @ js_or (Some (precondition c)) word_none @ ''</p>'' @ nl @ ''<ol>'' @ nl @ join [] ss
               @ nl @ ''</ol>'' @ nl @ ''</div>'' @ nl))"

definition html_head :: string where
  "html_head =
       nl @ ''<!DOCTYPE html>'' @ nl @ ''<html lang='' @ dq @ ''zh'' @ dq @ ''>'' @
       nl @ ''<head>'' @ nl @ ''<meta charset='' @ dq @ ''UTF-8'' @ dq @ ''>'' @ nl @
       ''<title>'' @
       [CHR 0xE6, CHR 0xB5, CHR 0x8B, CHR 0xE8, CHR 0xAF, CHR 0x95, CHR 0xE7, CHR 0x94, CHR 0xA8, CHR 0xE4, CHR 0xBE, CHR 0x8B, CHR 0xE5, CHR 0xAF, CHR 0xBC, CHR 0xE5, CHR 0x87, CHR 0xBA] @
       ''</title>'' @ nl @ ''<style>'' @ nl @ ''body { font-family: '' @ dq @
       ''Segoe UI'' @ dq @ '', Roboto, sans-serif; background: #f3f4f6; margin:0; }'' @
       nl @ ''.case-card { background:#fff; padding:16px; margin:16px; bor'' @
       ''der-radius:12px; box-shadow:0 2px 8px rgba(0,0,0,0.1); }'' @ nl @
       ''.status-success { color:green; font-weight:bold; }'' @ nl @
       ''.status-fail { color:red; font-weight:bold; }'' @ nl @
       ''.status-exception { color:orange; font-weight:bold; }'' @ nl @
       ''ol, ul { padding-left:20px; }'' @ nl @ ''</style>'' @ nl @ ''</head>'' @ nl @
       ''<body>'' @ nl @ ''<h1 style='' @ dq @ ''text-align:center;'' @ dq @ ''>'' @
       [CHR 0xE6, CHR 0xB5, CHR 0x8B, CHR 0xE8, CHR 0xAF, CHR 0x95, CHR 0xE7, CHR 0x94, CHR 0xA8, CHR 0xE4, CHR 0xBE, CHR 0x8B, CHR 0xE6, CHR 0x89, CHR 0x8B, CHR 0xE5, CHR 0x86, CHR 0x8C] @
       ''</h1>'' @ nl"

definition html_tail :: string where
  "html_tail = nl @ ''</body>'' @ nl @ ''</html>'' @ nl"

definition exportHtml :: "TestCase list \<Rightarrow> js_error + string" where
  "exportHtml cs =
     (case map_err (case_card cs) cs of
        Inl e \<Rightarrow> Inl e
      | Inr cards \<Rightarrow> Inr (html_head @ join [] cards @ html_tail))"

section \<open>Startup load: \<^verbatim>\<open>localStorage.getItem\<close> and \<^verbatim>\<open>JSON.parse\<close>\<close>

text \<open>
  \<^verbatim>\<open>JSON.parse\<close> belongs to the platform. It is modelled by the JSON grammar
  (ECMA-404), which decides whether a text parses: a lexer, then a pushdown recogniser
  that builds the value. Number and string tokens keep their source text (no
  conversion to doubles, no decoding of escapes). A text outside the grammar throws
  \<^verbatim>\<open>SyntaxError\<close>.
\<close>

datatype json =
    JNull
  | JBool bool
  | JNumber string
  | JString string
  | JArray "json list"
  | JObject "(string \<times> json) list"

datatype token = TLBrace | TRBrace | TLBrack | TRBrack | TColon | TComma
  | TString string | TScalar json

definition is_ws :: "char \<Rightarrow> bool" where
  "is_ws ch = (ch \<in> set [CHR 0x20, CHR 0x09, CHR 0x0A, CHR 0x0D])"

definition is_hex :: "char \<Rightarrow> bool" where
  "is_hex ch = (ch \<in> set ''0123456789abcdefABCDEF'')"

text \<open>After a backslash: one of the eight simple escapes, or \<^verbatim>\<open>u\<close> and four
  hexadecimal digits.\<close>

definition valid_escape :: "char \<Rightarrow> string \<Rightarrow> bool" where
  "valid_escape e cs =
     (e \<in> set [CHR 0x22, CHR 0x5C, CHR ''/'', CHR ''b'', CHR ''f'', CHR ''n'', CHR ''r'', CHR ''t'']
      \<or> (e = CHR ''u'' \<and> 4 \<le> length cs \<and> list_all is_hex (take 4 cs)))"

text \<open>The text of a string token after its opening quote, and what follows the
  closing quote.\<close>

fun scan_string :: "string \<Rightarrow> (string \<times> string) option" where
  "scan_string [] = None"
| "scan_string [ch] = (if ch = CHR 0x22 then Some ([], []) else None)"
| "scan_string (ch # e # cs) =
     (if ch = CHR 0x22 then Some ([], e # cs)
      else if ch = CHR 0x5C then
        (if valid_escape e cs
         then map_option (\<lambda>(s, r). (ch # e # s, r)) (scan_string cs)
         else None)
      else if (of_char ch :: nat) < 0x20 then None
      else map_option (\<lambda>(s, r). (ch # s, r)) (scan_string (e # cs)))"

text \<open>A number token: \<^verbatim>\<open>-? (0 | [1-9][0-9]*) (. [0-9]+)? ([eE] [+-]? [0-9]+)?\<close>.\<close>

definition scan_int :: "string \<Rightarrow> (string \<times> string) option" where
  "scan_int s =
     (case s of
        [] \<Rightarrow> None
      | d # ds \<Rightarrow>
          if d = CHR ''0'' then Some ([d], ds)
          else if is_digit d then Some (takeWhile is_digit s, dropWhile is_digit s)
          else None)"

definition scan_frac :: "string \<Rightarrow> (string \<times> string) option" where
  "scan_frac s =
     (case s of
        [] \<Rightarrow> Some ([], s)
      | d # ds \<Rightarrow>
          if d = CHR ''.'' then
            (if takeWhile is_digit ds = [] then None
             else Some (d # takeWhile is_digit ds, dropWhile is_digit ds))
          else Some ([], s))"

definition scan_exp :: "string \<Rightarrow> (string \<times> string) option" where
  "scan_exp s =
     (case s of
        [] \<Rightarrow> Some ([], s)
      | e # es \<Rightarrow>
          if e = CHR ''e'' \<or> e = CHR ''E'' then
            (let sg = takeWhile (\<lambda>ch. ch = CHR ''+'' \<or> ch = CHR ''-'') (take 1 es);
                 ds = drop (length sg) es
             in if takeWhile is_digit ds = [] then None
                else Some (e # sg @ takeWhile is_digit ds, dropWhile is_digit ds))
          else Some ([], s))"

definition scan_number :: "string \<Rightarrow> (string \<times> string) option" where
  "scan_number s =
     (let sg = takeWhile (\<lambda>ch. ch = CHR ''-'') (take 1 s)
      in case scan_int (drop (length sg) s) of
           None \<Rightarrow> None
         | Some (ip, r1) \<Rightarrow>
             (case scan_frac r1 of
                None \<Rightarrow> None
              | Some (fp, r2) \<Rightarrow>
                  (case scan_exp r2 of
                     None \<Rightarrow> None
                   | Some (ep, r3) \<Rightarrow> Some (sg @ ip @ fp @ ep, r3))))"

text \<open>One token from the front of a text that does not start with white space.\<close>

definition punct_token :: "char \<Rightarrow> token option" where
  "punct_token ch =
     (if ch = CHR ''{'' then Some TLBrace
      else if ch = CHR ''}'' then Some TRBrace
      else if ch = CHR ''['' then Some TLBrack
      else if ch = CHR '']'' then Some TRBrack
      else if ch = CHR '':'' then Some TColon
      else if ch = CHR '','' then Some TComma
      else None)"

definition literal_token :: "string \<Rightarrow> (token \<times> string) option" where
  "literal_token s =
     (if take 4 s = ''true'' then Some (TScalar (JBool True), drop 4 s)
      else if take 5 s = ''false'' then Some (TScalar (JBool False), drop 5 s)
      else if take 4 s = ''null'' then Some (TScalar JNull, drop 4 s)
      else None)"

definition next_token :: "string \<Rightarrow> (token \<times> string) option" where
  "next_token s =
     (case s of
        [] \<Rightarrow> None
      | ch # cs \<Rightarrow>
          (case punct_token ch of
             Some t \<Rightarrow> Some (t, cs)
           | None \<Rightarrow>
               if ch = CHR 0x22 then map_option (\<lambda>(t, r). (TString t, r)) (scan_string cs)
               else if ch = CHR ''-'' \<or> is_digit ch then
                 map_option (\<lambda>(t, r). (TScalar (JNumber t), r)) (scan_number s)
               else literal_token s))"

text \<open>Every token takes at least one character, so the lexer below terminates.\<close>

lemma scan_string_length: "scan_string s = Some (t, r) \<Longrightarrow> length r < length s"
proof (induction "length s" arbitrary: s t r rule: less_induct)
  case less
  show ?case
  proof (cases s rule: scan_string.cases)
    case 1
    with less.prems show ?thesis by simp
  next
    case (2 ch)
    with less.prems show ?thesis by (simp split: if_splits)
  next
    case (3 ch e cs)
    have a: "length r' < length cs" if "scan_string cs = Some (t', r')" for t' r'
      using less.hyps [of cs t' r'] 3 that by simp
    have b: "length r' < length (e # cs)" if "scan_string (e # cs) = Some (t', r')" for t' r'
      using less.hyps [of "e # cs" t' r'] 3 that by simp
    show ?thesis
    proof (cases "ch = CHR 0x22")
      case True
      with less.prems 3 show ?thesis by simp
    next
      case nq: False
      show ?thesis
      proof (cases "ch = CHR 0x5C")
        case True
        with nq less.prems 3 obtain t' where "scan_string cs = Some (t', r)"
          by (auto split: if_splits)
        from a [OF this] 3 show ?thesis by simp
      next
        case False
        with nq less.prems 3 obtain t' where "scan_string (e # cs) = Some (t', r)"
          by (auto split: if_splits)
        from b [OF this] 3 show ?thesis by simp
      qed
    qed
  qed
qed

lemma scan_int_length: "scan_int s = Some (t, r) \<Longrightarrow> length r < length s"
  by (cases s) (auto simp: scan_int_def less_Suc_eq_le length_dropWhile_le split: if_splits)

lemma scan_frac_length: "scan_frac s = Some (t, r) \<Longrightarrow> length r \<le> length s"
  by (cases s) (auto simp: scan_frac_def le_SucI length_dropWhile_le split: if_splits)

lemma scan_exp_length: "scan_exp s = Some (t, r) \<Longrightarrow> length r \<le> length s"
proof (cases s)
  case Nil
  assume "scan_exp s = Some (t, r)"
  with Nil show ?thesis by (simp add: scan_exp_def)
next
  case (Cons e es)
  assume a: "scan_exp s = Some (t, r)"
  show ?thesis
  proof (cases "e = CHR ''e'' \<or> e = CHR ''E''")
    case True
    let ?sg = "takeWhile (\<lambda>ch. ch = CHR ''+'' \<or> ch = CHR ''-'') (take 1 es)"
    from a Cons True have "r = dropWhile is_digit (drop (length ?sg) es)"
      by (auto simp: scan_exp_def Let_def split: if_splits)
    moreover have "length (dropWhile is_digit (drop (length ?sg) es)) \<le> length (drop (length ?sg) es)"
      by (rule length_dropWhile_le)
    ultimately show ?thesis using Cons by simp
  next
    case False
    with a Cons show ?thesis by (auto simp: scan_exp_def)
  qed
qed

lemma scan_number_length: "scan_number s = Some (t, r) \<Longrightarrow> length r < length s"
proof -
  assume a: "scan_number s = Some (t, r)"
  let ?sg = "takeWhile (\<lambda>ch. ch = CHR ''-'') (take 1 s)"
  from a obtain ip r1 fp r2 ep
    where i: "scan_int (drop (length ?sg) s) = Some (ip, r1)"
      and f: "scan_frac r1 = Some (fp, r2)"
      and e: "scan_exp r2 = Some (ep, r)"
    by (auto simp: scan_number_def Let_def split: option.splits)
  have "length r1 < length (drop (length ?sg) s)" using i by (rule scan_int_length)
  moreover have "length r2 \<le> length r1" using f by (rule scan_frac_length)
  moreover have "length r \<le> length r2" using e by (rule scan_exp_length)
  ultimately show ?thesis by simp
qed

lemma literal_token_length: "literal_token s = Some (t, r) \<Longrightarrow> length r < length s"
proof -
  assume a: "literal_token s = Some (t, r)"
  have "s \<noteq> []"
  proof
    assume "s = []"
    with a show False by (simp add: literal_token_def)
  qed
  moreover from a have "r = drop 4 s \<or> r = drop 5 s"
    unfolding literal_token_def by (metis option.distinct(1) option.inject prod.inject)
  ultimately show ?thesis by auto
qed

lemma next_token_length: "next_token s = Some (t, r) \<Longrightarrow> length r < length s"
proof (cases s)
  case Nil
  assume "next_token s = Some (t, r)"
  with Nil show ?thesis by (simp add: next_token_def)
next
  case (Cons ch cs)
  assume a: "next_token s = Some (t, r)"
  show ?thesis
  proof (cases "punct_token ch")
    case (Some p)
    with a Cons show ?thesis by (simp add: next_token_def)
  next
    case None
    show ?thesis
    proof (cases "ch = CHR 0x22")
      case True
      with a Cons None obtain t' where "scan_string cs = Some (t', r)"
        by (auto simp: next_token_def)
      from scan_string_length [OF this] Cons show ?thesis by simp
    next
      case nq: False
      show ?thesis
      proof (cases "ch = CHR ''-'' \<or> is_digit ch")
        case True
        with a Cons None nq obtain t' where "scan_number s = Some (t', r)"
          by (auto simp: next_token_def)
        then show ?thesis by (rule scan_number_length)
      next
        case False
        with a Cons None nq have "literal_token s = Some (t, r)"
          by (simp add: next_token_def)
        then show ?thesis by (rule literal_token_length)
      qed
    qed
  qed
qed

function lex :: "string \<Rightarrow> token list option" where
  "lex s =
     (case next_token (dropWhile is_ws s) of
        None \<Rightarrow> if dropWhile is_ws s = [] then Some [] else None
      | Some (t, r) \<Rightarrow> map_option (Cons t) (lex r))"
  by pat_completeness auto
termination
proof (relation "measure length")
  show "wf (measure length)" by simp
next
  fix s :: string and x t r
  assume "next_token (dropWhile is_ws s) = Some x" and "(t, r) = x"
  then have "next_token (dropWhile is_ws s) = Some (t, r)"
    by simp
  then have "length r < length (dropWhile is_ws s)"
    by (rule next_token_length)
  also have "\<dots> \<le> length s" by (rule length_dropWhile_le)
  finally show "(r, s) \<in> measure length" by simp
qed

declare lex.simps [simp del]

text \<open>The recogniser: what may come next, and the open arrays and objects (an object
  with the key that awaits its value).\<close>

datatype expect = EValue | EValueOrClose | ECommaOrClose | EKey | EKeyOrClose | EColon | EEnd

datatype frame = FArr "json list" | FObj "(string \<times> json) list" string

record pstate =
  expecting :: expect
  stack :: "frame list"
  result :: "json option"

definition push_value :: "json \<Rightarrow> frame list \<Rightarrow> pstate" where
  "push_value v st =
     (case st of
        [] \<Rightarrow> \<lparr>expecting = EEnd, stack = [], result = Some v\<rparr>
      | FArr xs # fs \<Rightarrow> \<lparr>expecting = ECommaOrClose, stack = FArr (xs @ [v]) # fs, result = None\<rparr>
      | FObj kvs k # fs \<Rightarrow>
          \<lparr>expecting = ECommaOrClose, stack = FObj (kvs @ [(k, v)]) [] # fs, result = None\<rparr>)"

definition start_value :: "token \<Rightarrow> frame list \<Rightarrow> pstate option" where
  "start_value t st =
     (case t of
        TScalar v \<Rightarrow> Some (push_value v st)
      | TString s \<Rightarrow> Some (push_value (JString s) st)
      | TLBrack \<Rightarrow> Some \<lparr>expecting = EValueOrClose, stack = FArr [] # st, result = None\<rparr>
      | TLBrace \<Rightarrow> Some \<lparr>expecting = EKeyOrClose, stack = FObj [] [] # st, result = None\<rparr>
      | _ \<Rightarrow> None)"

definition close_frame :: "token \<Rightarrow> frame list \<Rightarrow> pstate option" where
  "close_frame t st =
     (case (t, st) of
        (TRBrack, FArr xs # fs) \<Rightarrow> Some (push_value (JArray xs) fs)
      | (TRBrace, FObj kvs k # fs) \<Rightarrow> Some (push_value (JObject kvs) fs)
      | _ \<Rightarrow> None)"

definition parse_step :: "pstate \<Rightarrow> token \<Rightarrow> pstate option" where
  "parse_step ps t =
     (case expecting ps of
        EValue \<Rightarrow> start_value t (stack ps)
      | EValueOrClose \<Rightarrow> (if t = TRBrack then close_frame t (stack ps) else start_value t (stack ps))
      | ECommaOrClose \<Rightarrow>
          (if t = TComma then
             (case stack ps of
                FArr xs # fs \<Rightarrow> Some (ps\<lparr>expecting := EValue\<rparr>)
              | FObj kvs k # fs \<Rightarrow> Some (ps\<lparr>expecting := EKey\<rparr>)
              | [] \<Rightarrow> None)
           else close_frame t (stack ps))
      | EKey \<Rightarrow>
          (case (t, stack ps) of
             (TString k, FObj kvs k0 # fs) \<Rightarrow> Some (ps\<lparr>expecting := EColon, stack := FObj kvs k # fs\<rparr>)
           | _ \<Rightarrow> None)
      | EKeyOrClose \<Rightarrow>
          (case (t, stack ps) of
             (TString k, FObj kvs k0 # fs) \<Rightarrow> Some (ps\<lparr>expecting := EColon, stack := FObj kvs k # fs\<rparr>)
           | (TRBrace, fs) \<Rightarrow> close_frame t fs
           | _ \<Rightarrow> None)
      | EColon \<Rightarrow> (if t = TColon then Some (ps\<lparr>expecting := EValue\<rparr>) else None)
      | EEnd \<Rightarrow> None)"

fun parse_tokens :: "pstate \<Rightarrow> token list \<Rightarrow> json option" where
  "parse_tokens ps [] = (if expecting ps = EEnd then result ps else None)"
| "parse_tokens ps (t # ts) =
     (case parse_step ps t of None \<Rightarrow> None | Some ps' \<Rightarrow> parse_tokens ps' ts)"

definition JSON_parse :: "string \<Rightarrow> js_error + json" where
  "JSON_parse s =
     (case lex s of
        None \<Rightarrow> Inl SyntaxError
      | Some ts \<Rightarrow>
          (case parse_tokens \<lparr>expecting = EValue, stack = [], result = None\<rparr> ts of
             None \<Rightarrow> Inl SyntaxError
           | Some v \<Rightarrow> Inr v))"

text \<open>
  The initialiser of the \<^verbatim>\<open>cases\<close> state:
  \<^verbatim>\<open>const saved = localStorage.getItem(STORAGE_KEY); if (saved) return JSON.parse(saved); return []\<close>.
  \<^verbatim>\<open>getItem\<close> gives \<^verbatim>\<open>null\<close> for a missing key; the empty string is falsy too.
\<close>

definition initial_cases :: "string option \<Rightarrow> js_error + json" where
  "initial_cases saved =
     (case saved of
        None \<Rightarrow> Inr (JArray [])
      | Some s \<Rightarrow> if s = [] then Inr (JArray []) else JSON_parse s)"

section \<open>Reachable pages\<close>

text \<open>
  The pages the user can bring about: the first start with an empty store, a restart
  (the store holds the collection of the last state), any editing of the form, and the
  handlers that change the collection. A case can be opened for editing only from the
  list, so it is one of the collection.
\<close>

inductive reachable :: "Page \<Rightarrow> bool" where
  start: "reachable (initial_page [])"
| restart: "reachable st \<Longrightarrow> reachable (initial_page (cases st))"
| form_title: "reachable st \<Longrightarrow> reachable (setTitle t st)"
| form_precondition: "reachable st \<Longrightarrow> reachable (st\<lparr>preconditionF := p\<rparr>)"
| form_steps: "reachable st \<Longrightarrow> reachable (st\<lparr>stepsF := ss\<rparr>)"
| add: "reachable st \<Longrightarrow> reachable (addCase st)"
| edit: "reachable st \<Longrightarrow> tc \<in> set (cases st) \<Longrightarrow> reachable (editCase tc st)"
| save: "reachable st \<Longrightarrow> reachable (saveCase st)"
| delete: "reachable st \<Longrightarrow> reachable (deleteCase ok i st)"
| clear: "reachable st \<Longrightarrow> reachable (clearCases ok st)"

section \<open>Example collections and pages\<close>

text \<open>The scenario of the specification's section 8: a login case whose second step
  depends on the first and branches back to it.\<close>

definition ex_login :: TestCase where
  "ex_login =
     \<lparr>case_id = ''TC-1'', title = ''Login'', precondition = ''user exists'',
      steps = [\<lparr>action = ''enter creds'', expectedStatus = Success, expectedValue = [],
                dependsOn = None, branches = None\<rparr>,
               \<lparr>action = ''submit'', expectedStatus = Success, expectedValue = ''redirect'',
                dependsOn = Some 0,
                branches = Some [\<lparr>condition = ''invalid'', nextStep = 0\<rparr>]\<rparr>]\<rparr>"

text \<open>A case whose first step branches forward and whose second step depends on the
  first.\<close>

definition ex_forward :: TestCase where
  "ex_forward =
     \<lparr>case_id = ''TC-1'', title = ''Forward'', precondition = [],
      steps = [\<lparr>action = ''a'', expectedStatus = Success, expectedValue = [],
                dependsOn = None,
                branches = Some [\<lparr>condition = ''x'', nextStep = 1\<rparr>]\<rparr>,
               \<lparr>action = ''b'', expectedStatus = Failure, expectedValue = [],
                dependsOn = Some 0, branches = None\<rparr>]\<rparr>"

text \<open>Two steps; the second has one branch to step 0 and one to step 5, which does not
  exist.\<close>

definition ex_dangling :: TestCase where
  "ex_dangling =
     \<lparr>case_id = ''TC-1'', title = ''Dangling'', precondition = [],
      steps = [\<lparr>action = ''open'', expectedStatus = Success, expectedValue = [],
                dependsOn = None, branches = None\<rparr>,
               \<lparr>action = ''check'', expectedStatus = Exception, expectedValue = ''ok'',
                dependsOn = None,
                branches = Some [\<lparr>condition = ''retry'', nextStep = 0\<rparr>,
                                 \<lparr>condition = ''lost'', nextStep = 5\<rparr>]\<rparr>]\<rparr>"

text \<open>A collection of two cases, and the page while the first is being edited with a
  new title typed into the form.\<close>

definition ex_two :: "TestCase list" where
  "ex_two = [ex_login, ex_dangling\<lparr>case_id := ''TC-2''\<rparr>]"

definition ex_editing :: Page where
  "ex_editing = setTitle ''Sign in'' (editCase ex_login (initial_page ex_two))"

text \<open>The page after a case is added to the empty collection, opened for editing, and
  deleted before the edit is saved.\<close>

definition ex_stale_edit :: Page where
  "ex_stale_edit =
     deleteCase True ''TC-1''
       (editCase (cases (addCase (initial_page [])) ! 0) (addCase (initial_page [])))"

text \<open>The page after three cases are added with the titles \<open>first\<close>, \<open>second\<close> and
  \<open>third\<close>, the first one being deleted before the third is added.\<close>

definition ex_dup :: Page where
  "ex_dup =
     addCase (setTitle ''third''
       (deleteCase True ''TC-1''
          (addCase (setTitle ''second'' (addCase (setTitle ''first'' (initial_page [])))))))"

section \<open>Indexed iteration\<close>

lemma forEach_idx_append:
  assumes "\<And>x i acc. f x i acc = acc @ g x i"
  shows "forEach_idx f xs i acc = acc @ concat (map_idx g i xs)"
  using assms by (induction xs arbitrary: i acc) simp_all

lemma map_idx_nth:
  "map_idx g i xs = map (\<lambda>k. g (xs ! k) (i + k)) [0..<length xs]"
proof (induction xs arbitrary: i)
  case Nil
  then show ?case by simp
next
  case (Cons x xs)
  have "[0..<length (x # xs)] = 0 # map Suc [0..<length xs]"
    by (simp add: upt_conv_Cons map_Suc_upt del: upt_Suc)
  then show ?case using Cons by (simp add: comp_def del: upt_Suc)
qed

lemma map_idx_0: "map_idx g 0 xs = map (\<lambda>k. g (xs ! k) k) [0..<length xs]"
  by (simp add: map_idx_nth)

lemma length_map_idx: "length (map_idx g i xs) = length xs"
  by (induction xs arbitrary: i) simp_all

lemma fold_append_lines: "fold (\<lambda>b acc. acc @ g b) bs code = code @ concat (map g bs)"
  by (induction bs arbitrary: code) simp_all

section \<open>Properties of the Graph Builder\<close>

lemma emit_edges_append: "emit_edges s idx code = code @ dep_edges_of s idx @ branch_edges_of s idx"
  by (simp add: emit_edges_def dep_edges_of_def branch_edges_of_def fold_append_lines
      split: option.splits)

lemma forEach_emit_edges:
  "forEach_idx emit_edges xs i acc
     = acc @ concat (map_idx (\<lambda>s idx. dep_edges_of s idx @ branch_edges_of s idx) i xs)"
  by (rule forEach_idx_append) (rule emit_edges_append)

text \<open>Each of the three \<^verbatim>\<open>forEach\<close> calls appends one section to the header, and the
  class definitions close the text.\<close>

lemma generateMermaid_sections:
  "generateMermaid c =
     ''graph TD'' @ nl
     @ concat (map_idx node_line 0 (steps c))
     @ concat (map_idx (\<lambda>s idx. dep_edges_of s idx @ branch_edges_of s idx) 0 (steps c))
     @ concat (map_idx class_line 0 (steps c))
     @ classDefs"
proof -
  have n: "forEach_idx (\<lambda>s idx code. code @ node_line s idx) xs i acc
             = acc @ concat (map_idx node_line i xs)" for xs i acc
    by (rule forEach_idx_append) simp
  have k: "forEach_idx (\<lambda>s idx code. code @ class_line s idx) xs i acc
             = acc @ concat (map_idx class_line i xs)" for xs i acc
    by (rule forEach_idx_append) simp
  show ?thesis
    by (simp add: generateMermaid_def Let_def n forEach_emit_edges k)
qed

text \<open>
  Claim C6. For every test case, \<open>generateMermaid\<close> emits, after the header, exactly one
  node declaration per step, in step order (the list below has one entry for each index
  \<open>0 ..< length (steps c)\<close>), labelled with the step's action and expected status; after
  the edges it tags each node, again in step order, with the style class of its status;
  and the three statuses have the three different classes \<open>success\<close>, \<open>fail\<close> and
  \<open>exception\<close>.
\<close>

theorem generateMermaid_nodes:
  "generateMermaid c =
     ''graph TD'' @ nl
     @ concat (map (\<lambda>i. node_line (steps c ! i) i) [0..<length (steps c)])
     @ forEach_idx emit_edges (steps c) 0 []
     @ concat (map (\<lambda>i. class_line (steps c ! i) i) [0..<length (steps c)])
     @ classDefs
   \<and> node_line s i = ''S'' @ string_of_nat i @ ''['' @ dq @ action s @ '' | ''
                       @ status_text (expectedStatus s) @ dq @ '']'' @ nl
   \<and> class_line s i = ''class S'' @ string_of_nat i @ '' '' @ style_class (expectedStatus s) @ nl
   \<and> style_class Success = ''success'' \<and> style_class Failure = ''fail''
   \<and> style_class Exception = ''exception''
   \<and> distinct [style_class Success, style_class Failure, style_class Exception]"
proof -
  have "forEach_idx emit_edges (steps c) 0 []
          = concat (map_idx (\<lambda>s idx. dep_edges_of s idx @ branch_edges_of s idx) 0 (steps c))"
    by (simp add: forEach_emit_edges)
  then show ?thesis
    by (simp add: generateMermaid_sections map_idx_0 node_line_def class_line_def style_class_def)
qed

text \<open>
  Claim C7, as stated, fails: the edges are not emitted in two passes. On \<open>ex_forward\<close>
  the branch edge of step 0 comes before the dependency edge of step 1, while the
  two-pass order of the specification puts the dependency edge first.
\<close>

theorem generateMermaid_order_counterexample:
  "generateMermaid ex_forward \<noteq> generateMermaid_spec ex_forward"
  unfolding ex_forward_def by code_simp

text \<open>
  Claim C7, amended. The edge section is written in one pass over the steps, in step
  order: for each step its dependency edge \<open>d -> i\<close>, if it declares \<open>dependsOn = d\<close>
  (whether or not it has branches), followed by one edge \<open>i -> nextStep b\<close> labelled
  \<open>condition b\<close> for each of its branches, in their own order.
\<close>

theorem generateMermaid_edges_one_pass:
  "generateMermaid c =
     ''graph TD'' @ nl
     @ concat (map (\<lambda>i. node_line (steps c ! i) i) [0..<length (steps c)])
     @ concat (map (\<lambda>i. dep_edges_of (steps c ! i) i @ branch_edges_of (steps c ! i) i)
                   [0..<length (steps c)])
     @ concat (map (\<lambda>i. class_line (steps c ! i) i) [0..<length (steps c)])
     @ classDefs
   \<and> dep_edges_of s i = (case dependsOn s of None \<Rightarrow> []
                          | Some d \<Rightarrow> ''S'' @ string_of_int d @ '' --> S'' @ string_of_nat i @ nl)
   \<and> branch_edges_of s i =
       concat (map (\<lambda>b. ''S'' @ string_of_nat i @ '' -->|'' @ condition b @ ''| S''
                          @ string_of_int (nextStep b) @ nl)
                   (case branches s of None \<Rightarrow> [] | Some bs \<Rightarrow> bs))"
proof (intro conjI)
  show "dep_edges_of s i = (case dependsOn s of None \<Rightarrow> []
                          | Some d \<Rightarrow> ''S'' @ string_of_int d @ '' --> S'' @ string_of_nat i @ nl)"
    by (simp add: dep_edges_of_def dep_edge_line_def split: option.splits)
  have "branch_edge_line i = (\<lambda>b. ''S'' @ string_of_nat i @ '' -->|'' @ condition b @ ''| S''
                          @ string_of_int (nextStep b) @ nl)"
    by (rule ext) (simp add: branch_edge_line_def)
  then show "branch_edges_of s i =
       concat (map (\<lambda>b. ''S'' @ string_of_nat i @ '' -->|'' @ condition b @ ''| S''
                          @ string_of_int (nextStep b) @ nl)
                   (case branches s of None \<Rightarrow> [] | Some bs \<Rightarrow> bs))"
    by (simp only: branch_edges_of_def)
qed (simp add: generateMermaid_sections map_idx_0)

section \<open>Properties of the Tabular exporter\<close>

lemma js_or_join: "js_or (map_option f v) [] = (case v of None \<Rightarrow> [] | Some x \<Rightarrow> f x)"
  by (simp add: js_or_def split: option.splits)

text \<open>
  Claim C8. \<open>exportExcel\<close> produces one row per test case of the collection, in order;
  the row holds the case's id, title and precondition, and its steps column is the
  step lines joined by newlines, the line of step \<open>k\<close> being the word for "step", the
  1-based index, the action, the expected status, the expected value, a space, and
  the branch summaries \<open>[condition -> step (nextStep + 1)]\<close> joined by a comma and a
  space (nothing when the step has no branches).
\<close>

theorem exportExcel_rows:
  "length (exportExcel cs) = length cs
   \<and> (\<forall>i<length cs.
         col_ID (exportExcel cs ! i) = case_id (cs ! i)
       \<and> col_title (exportExcel cs ! i) = title (cs ! i)
       \<and> col_precondition (exportExcel cs ! i) = precondition (cs ! i)
       \<and> col_steps (exportExcel cs ! i)
           = join nl (map (\<lambda>k. step_line (steps (cs ! i) ! k) k) [0..<length (steps (cs ! i))]))
   \<and> step_line s k =
       word_step @ '' '' @ string_of_nat (k + 1) @ '': '' @ action s @ '' | ''
       @ status_text (expectedStatus s) @ '' | '' @ expectedValue s @ '' ''
       @ (case branches s of
            None \<Rightarrow> []
          | Some bs \<Rightarrow> join '', '' (map (\<lambda>b. ''['' @ condition b @ '' -> '' @ word_step @ '' ''
                                              @ string_of_int (nextStep b + 1) @ '']'') bs))"
proof (intro conjI allI impI)
  show "length (exportExcel cs) = length cs"
    by (simp add: exportExcel_def)
next
  fix i assume "i < length cs"
  then show "col_ID (exportExcel cs ! i) = case_id (cs ! i)"
    and "col_title (exportExcel cs ! i) = title (cs ! i)"
    and "col_precondition (exportExcel cs ! i) = precondition (cs ! i)"
    and "col_steps (exportExcel cs ! i)
           = join nl (map (\<lambda>k. step_line (steps (cs ! i) ! k) k) [0..<length (steps (cs ! i))])"
    by (simp_all add: exportExcel_def map_idx_0)
next
  show "step_line s k =
       word_step @ '' '' @ string_of_nat (k + 1) @ '': '' @ action s @ '' | ''
       @ status_text (expectedStatus s) @ '' | '' @ expectedValue s @ '' ''
       @ (case branches s of
            None \<Rightarrow> []
          | Some bs \<Rightarrow> join '', '' (map (\<lambda>b. ''['' @ condition b @ '' -> '' @ word_step @ '' ''
                                              @ string_of_int (nextStep b + 1) @ '']'') bs))"
    unfolding step_line_def js_or_join Let_def branch_summary_def [abs_def] by simp
qed

text \<open>The theorem on the scenario of the specification: one row, whose steps text is the
  one the specification gives.\<close>

theorem exportExcel_rows_witness:
  "0 < length [ex_login]
   \<and> col_ID (exportExcel [ex_login] ! 0) = ''TC-1''
   \<and> col_steps (exportExcel [ex_login] ! 0) =
       word_step @ '' 1: enter creds | '' @ status_text Success @ '' |  '' @ nl
       @ word_step @ '' 2: submit | '' @ status_text Success @ '' | redirect [invalid -> ''
       @ word_step @ '' 1]''"
proof -
  have a: "0 < length [ex_login]"
    by simp
  from exportExcel_rows [of "[ex_login]"] a
  have b: "col_ID (exportExcel [ex_login] ! 0) = case_id ([ex_login] ! 0)
         \<and> col_steps (exportExcel [ex_login] ! 0)
             = join nl (map (\<lambda>k. step_line (steps ([ex_login] ! 0) ! k) k)
                            [0..<length (steps ([ex_login] ! 0))])"
    by blast
  have c: "case_id ([ex_login] ! 0) = ''TC-1''"
    by (simp add: ex_login_def)
  have d: "join nl (map (\<lambda>k. step_line (steps ([ex_login] ! 0) ! k) k)
                        [0..<length (steps ([ex_login] ! 0))])
           = word_step @ '' 1: enter creds | '' @ status_text Success @ '' |  '' @ nl
             @ word_step @ '' 2: submit | '' @ status_text Success @ '' | redirect [invalid -> ''
             @ word_step @ '' 1]''"
    by code_simp
  from a b c d show ?thesis
    by simp
qed

section \<open>Properties of the Model\<close>

text \<open>The id of a new case is made from the length of the collection.\<close>

lemma cases_addCase:
  "cases (addCase st) =
     cases st @ [\<lparr>case_id = ''TC-'' @ string_of_nat (Suc (length (cases st))), title = titleF st,
                  precondition = preconditionF st, steps = stepsF st\<rparr>]"
  by (simp add: addCase_def resetForm_def Let_def)

text \<open>
  Claim C4 is what the page relies on (a case is edited, deleted and keyed by its id),
  but \<open>addCase\<close> numbers the new case by the current length of the collection, not by
  a creation counter. Starting from the empty collection: add two cases, delete
  \<open>TC-1\<close>, add a third. The new case is numbered \<open>TC-2\<close> again, and the collection
  holds two cases with the same id.
\<close>

theorem addCase_reuses_id:
  "map case_id (cases (addCase (deleteCase True ''TC-1'' (addCase (addCase (initial_page []))))))
     = [''TC-2'', ''TC-2'']"
  by code_simp

lemma cases_saveCase:
  "cases (saveCase st) =
     (case editingId st of
        None \<Rightarrow> cases st
      | Some eid \<Rightarrow>
          if eid = [] then cases st
          else map (\<lambda>c. if case_id c = eid
                         then c\<lparr>title := titleF st, precondition := preconditionF st, steps := stepsF st\<rparr>
                         else c) (cases st))"
  by (simp add: saveCase_def resetForm_def split: option.splits)

lemma editingId_saveCase:
  "editingId st = Some eid \<Longrightarrow> eid \<noteq> [] \<Longrightarrow> editingId (saveCase st) = None"
  by (simp add: saveCase_def resetForm_def)

text \<open>
  Claim C5, as stated, fails: \<open>saveCase\<close> has no failure. When the case under edit was
  deleted before the save, the specification's \<open>updateCase\<close> answers \<open>NotFound\<close>, while
  \<open>saveCase\<close> returns normally: it leaves the collection as it is, closes the edit
  session and resets the form.
\<close>

theorem saveCase_not_found_counterexample:
  "editingId ex_stale_edit = Some ''TC-1''
   \<and> updateCase_spec ''TC-1'' (titleF ex_stale_edit) (preconditionF ex_stale_edit)
         (stepsF ex_stale_edit) (cases ex_stale_edit) = Inl NotFound
   \<and> saveCase ex_stale_edit = initial_page []"
  unfolding ex_stale_edit_def by code_simp

text \<open>
  Claim C5, amended. Committing an edit session on id \<open>eid\<close> replaces, in one update of
  the collection, the title, precondition and steps of every case with that id by the
  form's values, and ends the session; when no case has the id, the collection is left
  unchanged and no error is raised.
\<close>

theorem saveCase_replaces:
  assumes "editingId st = Some eid" and "eid \<noteq> []"
  shows "length (cases (saveCase st)) = length (cases st)
       \<and> (\<forall>i<length (cases st). case_id (cases st ! i) = eid \<longrightarrow>
             title (cases (saveCase st) ! i) = titleF st
           \<and> precondition (cases (saveCase st) ! i) = preconditionF st
           \<and> steps (cases (saveCase st) ! i) = stepsF st)
       \<and> (\<not> list_ex (\<lambda>c. case_id c = eid) (cases st) \<longrightarrow> cases (saveCase st) = cases st)
       \<and> editingId (saveCase st) = None"
proof (intro conjI allI impI)
  show "length (cases (saveCase st)) = length (cases st)"
    using assms by (simp add: cases_saveCase)
next
  fix i assume "i < length (cases st)" and "case_id (cases st ! i) = eid"
  then show "title (cases (saveCase st) ! i) = titleF st"
    and "precondition (cases (saveCase st) ! i) = preconditionF st"
    and "steps (cases (saveCase st) ! i) = stepsF st"
    using assms by (simp_all add: cases_saveCase)
next
  assume "\<not> list_ex (\<lambda>c. case_id c = eid) (cases st)"
  then have "\<forall>c\<in>set (cases st). case_id c \<noteq> eid"
    by (simp add: list_ex_iff)
  then have "map (\<lambda>c. if case_id c = eid
                         then c\<lparr>title := titleF st, precondition := preconditionF st, steps := stepsF st\<rparr>
                         else c) (cases st) = cases st"
    by (simp add: map_idI)
  then show "cases (saveCase st) = cases st"
    using assms by (simp add: cases_saveCase)
next
  show "editingId (saveCase st) = None"
    using assms by (rule editingId_saveCase)
qed

text \<open>On \<open>ex_editing\<close> the session is on \<open>TC-1\<close>, the first of two cases; after the save
  that case carries the title typed into the form.\<close>

theorem saveCase_replaces_witness:
  "editingId ex_editing = Some ''TC-1'' \<and> ''TC-1'' \<noteq> []
   \<and> 0 < length (cases ex_editing) \<and> case_id (cases ex_editing ! 0) = ''TC-1''
   \<and> title (cases (saveCase ex_editing) ! 0) = ''Sign in''
   \<and> editingId (saveCase ex_editing) = None"
proof -
  have a: "editingId ex_editing = Some ''TC-1''"
    unfolding ex_editing_def by code_simp
  have b: "''TC-1'' \<noteq> []"
    by simp
  have c: "0 < length (cases ex_editing)"
    unfolding ex_editing_def by code_simp
  have d: "case_id (cases ex_editing ! 0) = ''TC-1''"
    unfolding ex_editing_def by code_simp
  have e: "titleF ex_editing = ''Sign in''"
    unfolding ex_editing_def by code_simp
  from saveCase_replaces [OF a b] c d
  have "title (cases (saveCase ex_editing) ! 0) = titleF ex_editing
      \<and> editingId (saveCase ex_editing) = None"
    by blast
  with a b c d e show ?thesis
    by simp
qed

text \<open>
  Claim C10, as stated, fails where two cases carry the same id, which \<open>addCase\<close>
  produces after a deletion (\<open>ex_dup\<close>). The user opens the first of the two cases,
  types a new title and saves: the second case, which is not the one being edited,
  gets the new title as well.
\<close>

theorem saveCase_frame_counterexample:
  "map case_id (cases ex_dup) = [''TC-2'', ''TC-2'']
   \<and> title (cases ex_dup ! 1) = ''third''
   \<and> title (cases (saveCase (setTitle ''edited'' (editCase (cases ex_dup ! 0) ex_dup))) ! 1)
       = ''edited''"
  unfolding ex_dup_def by code_simp

text \<open>
  Claim C10, amended. A commit keeps the number and the order of the cases: at every
  position the id is the one that was there, and every case whose id is not the id
  under edit is left as it was. This holds for every state of the page, so in
  particular when the id is present in the collection.
\<close>

theorem saveCase_frame:
  "length (cases (saveCase st)) = length (cases st)
   \<and> (\<forall>i<length (cases st).
         case_id (cases (saveCase st) ! i) = case_id (cases st ! i)
       \<and> (editingId st \<noteq> Some (case_id (cases st ! i)) \<longrightarrow> cases (saveCase st) ! i = cases st ! i))"
  by (auto simp: cases_saveCase split: option.splits)

text \<open>On \<open>ex_editing\<close> the second case, \<open>TC-2\<close>, is not the one under edit: the save
  keeps the first case's id and leaves the second case untouched.\<close>

theorem saveCase_frame_witness:
  "1 < length (cases ex_editing)
   \<and> editingId ex_editing \<noteq> Some (case_id (cases ex_editing ! 1))
   \<and> case_id (cases (saveCase ex_editing) ! 0) = ''TC-1''
   \<and> cases (saveCase ex_editing) ! 1 = ex_dangling\<lparr>case_id := ''TC-2''\<rparr>"
proof -
  have a: "1 < length (cases ex_editing)"
    unfolding ex_editing_def by code_simp
  have b: "editingId ex_editing \<noteq> Some (case_id (cases ex_editing ! 1))"
    unfolding ex_editing_def by code_simp
  have c: "case_id (cases ex_editing ! 0) = ''TC-1''"
    unfolding ex_editing_def by code_simp
  have d: "cases ex_editing ! 1 = ex_dangling\<lparr>case_id := ''TC-2''\<rparr>"
    unfolding ex_editing_def by code_simp
  from a have a0: "0 < length (cases ex_editing)"
    by linarith
  from saveCase_frame [of ex_editing] a0
  have e: "case_id (cases (saveCase ex_editing) ! 0) = case_id (cases ex_editing ! 0)"
    by blast
  from saveCase_frame [of ex_editing] a b
  have f: "cases (saveCase ex_editing) ! 1 = cases ex_editing ! 1"
    by blast
  from a b c d e f show ?thesis
    by simp
qed

section \<open>Properties of the Outline exporter\<close>

lemma fold_max_ge_init: "(a::nat) \<le> fold max xs a"
proof (induction xs arbitrary: a)
  case Nil
  then show ?case by simp
next
  case (Cons x xs)
  have "a \<le> max x a" by simp
  also have "\<dots> \<le> fold max xs (max x a)" by (rule Cons.IH)
  finally show ?case by simp
qed

lemma fold_max_ge_elem: "x \<in> set xs \<Longrightarrow> (x::nat) \<le> fold max xs a"
proof (induction xs arbitrary: a)
  case Nil
  then show ?case by simp
next
  case (Cons y ys)
  show ?case
  proof (cases "x = y")
    case True
    have "x \<le> max y a" using True by simp
    also have "\<dots> \<le> fold max ys (max y a)" by (rule fold_max_ge_init)
    finally show ?thesis by simp
  next
    case False
    with Cons.prems have "x \<in> set ys" by simp
    then show ?thesis using Cons.IH by simp
  qed
qed

lemma fold_max_le: "\<forall>x\<in>set xs. x \<le> k \<Longrightarrow> (a::nat) \<le> k \<Longrightarrow> fold max xs a \<le> k"
  by (induction xs arbitrary: a) simp_all

lemma depth_branch_topic: "depth (branch_topic b) = 1"
  by (simp add: branch_topic_def new_topic_def)


lemma topic_children_step_topic:
  "topic_children (step_topic s k) = map branch_topic (case branches s of None \<Rightarrow> [] | Some bs \<Rightarrow> bs)"
  by (simp add: step_topic_def Let_def set_note_def add_children_def new_topic_def split: option.splits)

lemma depth_children: "depth t = Suc (fold max (map depth (topic_children t)) 0)"
  by (cases t) simp

lemma depth_step_topic: "depth (step_topic s k) = (if step_has_branch s then 2 else 1)"
proof (cases "step_has_branch s")
  case True
  then obtain b bs where bs: "branches s = Some (b # bs)"
    by (auto simp: step_has_branch_def neq_Nil_conv split: option.splits)
  have "fold max (map depth (map branch_topic (b # bs))) 0 \<le> 1"
    by (rule fold_max_le) (auto simp: depth_branch_topic)
  moreover have "depth (branch_topic b) \<le> fold max (map depth (map branch_topic (b # bs))) 0"
    by (rule fold_max_ge_elem) simp
  ultimately have "fold max (map depth (map branch_topic (b # bs))) 0 = 1"
    by (simp add: depth_branch_topic)
  then show ?thesis
    using True bs by (simp add: depth_children [of "step_topic s k"] topic_children_step_topic)
next
  case False
  then have "(case branches s of None \<Rightarrow> [] | Some bs \<Rightarrow> bs) = []"
    by (auto simp: step_has_branch_def split: option.splits)
  then show ?thesis
    using False by (simp add: depth_children [of "step_topic s k"] topic_children_step_topic)
qed

lemma topic_children_case_topic:
  "topic_children (case_topic c) = map (\<lambda>k. step_topic (steps c ! k) k) [0..<length (steps c)]"
  by (simp add: case_topic_def set_note_def add_children_def new_topic_def map_idx_0)

lemma has_branch_iff: "has_branch c \<longleftrightarrow> (\<exists>k<length (steps c). step_has_branch (steps c ! k))"
  unfolding has_branch_def list_ex_iff by (metis in_set_conv_nth)

lemma depth_case_topic:
  "depth (case_topic c) = (if has_branch c then 3 else if steps c = [] then 1 else 2)"
proof -
  let ?ds = "map depth (map (\<lambda>k. step_topic (steps c ! k) k) [0..<length (steps c)])"
  have d: "depth (case_topic c) = Suc (fold max ?ds 0)"
    by (simp add: depth_children [of "case_topic c"] topic_children_case_topic)
  have le2: "fold max ?ds 0 \<le> 2"
    by (rule fold_max_le) (auto simp: depth_step_topic)
  show ?thesis
  proof (cases "has_branch c")
    case True
    then obtain k where k: "k < length (steps c)" "step_has_branch (steps c ! k)"
      by (auto simp: has_branch_iff)
    then have "depth (step_topic (steps c ! k) k) \<in> set ?ds"
      by auto
    then have "depth (step_topic (steps c ! k) k) \<le> fold max ?ds 0"
      by (rule fold_max_ge_elem)
    with k le2 have "fold max ?ds 0 = 2"
      by (simp add: depth_step_topic)
    with d True show ?thesis by simp
  next
    case nb: False
    show ?thesis
    proof (cases "steps c = []")
      case True
      with d nb show ?thesis by simp
    next
      case False
      have all1: "\<forall>x\<in>set ?ds. x \<le> 1"
        using nb by (auto simp: has_branch_iff depth_step_topic)
      have "fold max ?ds 0 \<le> 1"
        using all1 by (rule fold_max_le) simp
      moreover have "depth (step_topic (steps c ! 0) 0) \<in> set ?ds"
        using False by auto
      then have "depth (step_topic (steps c ! 0) 0) \<le> fold max ?ds 0"
        by (rule fold_max_ge_elem)
      moreover have "depth (step_topic (steps c ! 0) 0) = 1"
        using nb False by (auto simp: has_branch_iff depth_step_topic)
      ultimately have "fold max ?ds 0 = 1"
        by simp
      with d nb False show ?thesis by simp
    qed
  qed
qed

lemma topic_children_exportXMind: "topic_children (exportXMind cs) = map case_topic cs"
  by (simp add: exportXMind_def add_children_def new_topic_def)

text \<open>
  Claim C9, as stated, fails on a case without steps, which has no branch anywhere:
  its topic is a leaf, so the path from the root has two topics, not three. The form
  allows it: delete the only step, then add the case.
\<close>

theorem exportXMind_depth_counterexample:
  "\<not> has_branch (cases (addCase (deleteStep 0 (initial_page []))) ! 0)
   \<and> depth (exportXMind (cases (addCase (deleteStep 0 (initial_page []))))) = 2"
  by code_simp

text \<open>
  Claim C9, amended. In the topic tree of \<open>exportXMind\<close> the root has one child per case,
  in order, and the longest path from the root through a case's topic has 4 topics
  (root, case, step, branch) when the case has at least one branch, 3 when it has steps
  but no branch, and 2 when it has no steps. The children of a case's topic are its
  step topics, the children of a step's topic are the topics of its branches, and a
  branch topic is a leaf with the label \<open>Branch: condition -> Step (nextStep + 1)\<close>.
\<close>

theorem exportXMind_depth:
  "length (topic_children (exportXMind cs)) = length cs
   \<and> (\<forall>i<length cs.
         Suc (depth (topic_children (exportXMind cs) ! i))
           = (if has_branch (cs ! i) then 4 else if steps (cs ! i) = [] then 2 else 3)
       \<and> topic_children (topic_children (exportXMind cs) ! i)
           = map (\<lambda>k. step_topic (steps (cs ! i) ! k) k) [0..<length (steps (cs ! i))])
   \<and> topic_children (step_topic s k)
       = map branch_topic (case branches s of None \<Rightarrow> [] | Some bs \<Rightarrow> bs)
   \<and> topic_children (branch_topic b) = []
   \<and> topic_title (branch_topic b)
       = word_branch @ '': '' @ condition b @ '' -> '' @ word_step @ '' '' @ string_of_int (nextStep b + 1)"
  by (simp add: topic_children_exportXMind depth_case_topic topic_children_case_topic
      topic_children_step_topic branch_topic_def new_topic_def)

text \<open>On the login scenario, whose second step has a branch, the path has 4 topics.\<close>

theorem exportXMind_depth_witness:
  "0 < length [ex_login] \<and> has_branch ([ex_login] ! 0)
   \<and> Suc (depth (topic_children (exportXMind [ex_login]) ! 0)) = 4"
proof -
  have a: "0 < length [ex_login]" by simp
  have b: "has_branch ([ex_login] ! 0)" by code_simp
  from exportXMind_depth [of "[ex_login]"] a
  have "Suc (depth (topic_children (exportXMind [ex_login]) ! 0))
           = (if has_branch ([ex_login] ! 0) then 4 else if steps ([ex_login] ! 0) = [] then 2 else 3)"
    by blast
  with a b show ?thesis by simp
qed

section \<open>Properties of the Report exporter\<close>

text \<open>No property that an array has or inherits starts with a capital \<open>T\<close>, so reading
  \<^verbatim>\<open>cases["TC-..."]\<close> gives \<^verbatim>\<open>undefined\<close>: for a case numbered by \<open>addCase\<close> the
  optional chain never reaches the steps.\<close>

lemma array_get_prop_T: "array_get_prop cs (CHR ''T'' # k) = Undefined"
  by (simp add: array_get_prop_def array_index_def is_digit_def inherited_props_def)

lemma target_action_TC: "case_id c = ''TC-'' @ n \<Longrightarrow> target_action cs c b = Inr None"
  by (simp add: target_action_def array_get_prop_T)

lemma branch_entry_TC:
  "case_id c = ''TC-'' @ n \<Longrightarrow>
   branch_entry cs c b =
     Inr (''<li>'' @ word_condition @ '': '' @ condition b @ '' '' @ arrow @ '' '' @ word_next
          @ '': '' @ word_unknown @ ''</li>'')"
  by (simp add: branch_entry_def target_action_TC js_or_def)

lemma map_err_total: "(\<And>x. x \<in> set xs \<Longrightarrow> \<exists>y. f x = Inr y) \<Longrightarrow> \<exists>ys. map_err f xs = Inr ys"
proof (induction xs)
  case Nil
  then show ?case by simp
next
  case (Cons x xs)
  then obtain y where "f x = Inr y" by auto
  moreover from Cons obtain ys where "map_err f xs = Inr ys" by auto
  ultimately show ?case by simp
qed

text \<open>The export of a collection whose ids all have the form \<open>TC-...\<close> does not throw.\<close>

lemma exportHtml_total_TC:
  assumes ids: "\<And>c. c \<in> set cs \<Longrightarrow> \<exists>n. case_id c = ''TC-'' @ n"
  shows "\<exists>html. exportHtml cs = Inr html"
proof -
  have be: "\<exists>y. branch_entry cs c b = Inr y" if mem: "c \<in> set cs" for c b
    using ids [OF mem] by (auto simp: branch_entry_TC)
  have bl: "\<exists>y. branch_list cs c s = Inr y" if mem: "c \<in> set cs" for c s
  proof (cases "branches s")
    case None
    then show ?thesis by (simp add: branch_list_def)
  next
    case (Some bs)
    have "\<exists>es. map_err (branch_entry cs c) bs = Inr es"
      by (rule map_err_total) (rule be [OF mem])
    with Some show ?thesis by (auto simp: branch_list_def)
  qed
  have se: "\<exists>y. step_entry cs c s = Inr y" if mem: "c \<in> set cs" for c s
    using bl [OF mem, of s] by (auto simp: step_entry_def)
  have cc: "\<exists>y. case_card cs c = Inr y" if mem: "c \<in> set cs" for c
  proof -
    have "\<exists>ss. map_err (step_entry cs c) (steps c) = Inr ss"
      by (rule map_err_total) (rule se [OF mem])
    then show ?thesis by (auto simp: case_card_def)
  qed
  have "\<exists>cards. map_err (case_card cs) cs = Inr cards"
    by (rule map_err_total) (rule cc)
  then show ?thesis by (auto simp: exportHtml_def)
qed

text \<open>
  Claim C1 describes what the report is meant to show, and the source reaches for it
  (\<^verbatim>\<open>...steps[b.nextStep]?.action\<close>), but it looks the case up as \<^verbatim>\<open>cases[c.id]\<close>
  instead of using \<^verbatim>\<open>c\<close>. In the login scenario the branch of the second step points
  at step 0, whose action is \<open>enter creds\<close>; the entry shows the placeholder.
\<close>

theorem exportHtml_branch_target_unresolved:
  "map_option action (js_nth (steps ex_login) 0) = Some ''enter creds''
   \<and> branch_entry [ex_login] ex_login \<lparr>condition = ''invalid'', nextStep = 0\<rparr>
       = Inr (''<li>'' @ word_condition @ '': invalid '' @ arrow @ '' '' @ word_next
              @ '': '' @ word_unknown @ ''</li>'')"
  by code_simp

text \<open>
  Claim C2 wants the placeholder for the out-of-range branch only. In \<open>ex_dangling\<close> the
  second step has a branch to step 0, which exists, and a branch to step 5, which
  does not; the export does not throw, but both entries show the placeholder (the
  defect of claim C1).
\<close>

theorem exportHtml_in_range_branch_placeholder:
  "js_nth (steps ex_dangling) 0 = Some (steps ex_dangling ! 0)
   \<and> js_nth (steps ex_dangling) 5 = None
   \<and> branch_list [ex_dangling] ex_dangling (steps ex_dangling ! 1)
       = Inr (nl @ ''<ul>'' @ nl
              @ ''<li>'' @ word_condition @ '': retry '' @ arrow @ '' '' @ word_next
              @ '': '' @ word_unknown @ ''</li>''
              @ ''<li>'' @ word_condition @ '': lost '' @ arrow @ '' '' @ word_next
              @ '': '' @ word_unknown @ ''</li>''
              @ nl @ ''</ul>'' @ nl)"
  by code_simp

section \<open>Properties of the startup load\<close>

text \<open>
  Claim C3, as stated, fails: the initialiser calls \<^verbatim>\<open>JSON.parse\<close> outside any
  \<^verbatim>\<open>try\<close>, so a stored text that does not parse makes the load throw.
\<close>

theorem initial_cases_counterexample:
  "initial_cases (Some ''{'') = Inl SyntaxError"
  by code_simp

lemma JSON_parse_error: "JSON_parse s = Inl e \<Longrightarrow> e = SyntaxError"
  by (auto simp: JSON_parse_def split: option.splits)

text \<open>
  Claim C3, amended. The load falls back to the empty collection when the slot is
  missing or holds the empty string; for every other stored string it returns what
  \<^verbatim>\<open>JSON.parse\<close> returns, so it throws exactly when the stored string is not empty
  and does not parse, and what it throws is the \<^verbatim>\<open>SyntaxError\<close> of \<^verbatim>\<open>JSON.parse\<close>.
\<close>

theorem initial_cases_passes_parse:
  "initial_cases None = Inr (JArray [])
   \<and> initial_cases (Some []) = Inr (JArray [])
   \<and> (s \<noteq> [] \<longrightarrow> initial_cases (Some s) = JSON_parse s)
   \<and> ((\<exists>e. initial_cases (Some s) = Inl e) \<longleftrightarrow> s \<noteq> [] \<and> JSON_parse s = Inl SyntaxError)"
proof (intro conjI impI)
  show "initial_cases None = Inr (JArray [])" and "initial_cases (Some []) = Inr (JArray [])"
    by (simp_all add: initial_cases_def)
next
  assume "s \<noteq> []"
  then show "initial_cases (Some s) = JSON_parse s"
    by (simp add: initial_cases_def)
next
  show "(\<exists>e. initial_cases (Some s) = Inl e) \<longleftrightarrow> s \<noteq> [] \<and> JSON_parse s = Inl SyntaxError"
  proof (cases "s = []")
    case True
    then show ?thesis by (simp add: initial_cases_def)
  next
    case False
    then have "initial_cases (Some s) = JSON_parse s"
      by (simp add: initial_cases_def)
    with False show ?thesis
      using JSON_parse_error [of s] by auto
  qed
qed

text \<open>A stored array with a trailing comma is not empty and does not parse: the load
  throws.\<close>

theorem initial_cases_passes_parse_witness:
  "''[1,]'' \<noteq> [] \<and> initial_cases (Some ''[1,]'') = Inl SyntaxError"
proof -
  have a: "''[1,]'' \<noteq> []" by simp
  have b: "JSON_parse ''[1,]'' = Inl SyntaxError" by code_simp
  from initial_cases_passes_parse [of "''[1,]''"] a
  have "initial_cases (Some ''[1,]'') = JSON_parse ''[1,]''" by blast
  with a b show ?thesis by simp
qed

section \<open>Properties of reachable pages\<close>

text \<open>Every id in a reachable collection was made by \<open>addCase\<close>.\<close>

lemma reachable_ids:
  "reachable st \<Longrightarrow> c \<in> set (cases st) \<Longrightarrow> \<exists>n. case_id c = ''TC-'' @ n"
proof (induction arbitrary: c rule: reachable.induct)
  case start
  then show ?case by (simp add: initial_page_def)
next
  case (restart st)
  then show ?case by (simp add: initial_page_def)
next
  case (form_title st t)
  then show ?case by (simp add: setTitle_def)
next
  case (form_precondition st p)
  then show ?case by simp
next
  case (form_steps st ss)
  then show ?case by simp
next
  case (add st)
  then show ?case by (auto simp: cases_addCase)
next
  case (edit st tc)
  then show ?case by (simp add: editCase_def)
next
  case (save st)
  then show ?case
    by (auto simp: cases_saveCase split: option.splits if_splits)
next
  case (delete st ok i)
  then show ?case by (auto simp: deleteCase_def split: if_splits)
next
  case (clear st ok)
  then show ?case by (auto simp: clearCases_def split: if_splits)
qed

text \<open>So the report export of a reachable collection does not throw.\<close>

lemma exportHtml_reachable: "reachable st \<Longrightarrow> \<exists>html. exportHtml (cases st) = Inr html"
  by (rule exportHtml_total_TC) (rule reachable_ids)

text \<open>The pages used above against claims C4, C5, C9 and C10 are reachable.\<close>

lemma reachable_ex_dup: "reachable ex_dup"
  unfolding ex_dup_def by (intro reachable.intros)

lemma reachable_ex_dup_editing:
  "reachable (setTitle ''edited'' (editCase (cases ex_dup ! 0) ex_dup))"
proof -
  have "0 < length (cases ex_dup)"
    unfolding ex_dup_def by code_simp
  then have "cases ex_dup ! 0 \<in> set (cases ex_dup)"
    by (rule nth_mem)
  then show ?thesis
    by (intro reachable.intros reachable_ex_dup)
qed

lemma reachable_ex_stale_edit: "reachable ex_stale_edit"
proof -
  have "0 < length (cases (addCase (initial_page [])))"
    by code_simp
  then have "cases (addCase (initial_page [])) ! 0 \<in> set (cases (addCase (initial_page [])))"
    by (rule nth_mem)
  then show ?thesis
    unfolding ex_stale_edit_def by (intro reachable.intros)
qed

lemma reachable_no_steps: "reachable (addCase (deleteStep 0 (initial_page [])))"
  unfolding deleteStep_def by (intro reachable.intros)

end
